theory Spec2Isabelle
  imports Complex_Main
begin

section \<open>irproc: quick IR spectral processing\<close>

text \<open>
  A shallow embedding of \<^verbatim>\<open>src/irproc.py\<close>. Transmittances, wavenumbers and widths
  are numpy \<^verbatim>\<open>float64\<close> values in the program; here they are \<^typ>\<open>real\<close>, so all
  arithmetic is exact and rounding error is not represented: where the theory has the
  value 0 at the deepest sample, the program can have a value a few units in the last
  place away from it. The values read from a file are finite; the one place where the
  program makes values that are not, the division by a zero maximum in \<^verbatim>\<open>process_file\<close>,
  is modelled with the type \<open>transmittance\<close> below. Exceptions are values of the type
  \<open>error\<close>; every function that can raise returns \<open>error + 'a\<close>.
\<close>

subsection \<open>Errors and input\<close>

text \<open>
  \<open>ValueError\<close>, \<open>KeyError\<close>, \<open>OSError\<close> and \<open>SystemExit\<close> (raised by \<^verbatim>\<open>exit(1)\<close>) are the
  Python exceptions of those names.
\<close>

datatype error = ValueError | KeyError | OSError | SystemExit

text \<open>
  \<^verbatim>\<open>pd.read_csv(file_name, header=1, index_col=False)\<close> is the file system and the CSV
  parser: a parameter of the model. It gives the rows of the frame, each row the pair of
  its \<^verbatim>\<open>cm-1\<close> and \<^verbatim>\<open>%T\<close> cells, or the exception it raised (a missing file, a missing
  column). The columns of a frame have one length, which the list of rows expresses.
\<close>

type_synonym frame = "(real \<times> real) list"
type_synonym reader = "string \<Rightarrow> error + frame"

subsection \<open>\<^verbatim>\<open>process_file\<close>\<close>

text \<open>\<^verbatim>\<open>np.max\<close> raises \<^verbatim>\<open>ValueError\<close> on an empty array.\<close>

fun np_max :: "real list \<Rightarrow> error + real" where
  "np_max [] = Inl ValueError"
| "np_max (x # xs) = Inr (fold max xs x)"

text \<open>
  The array \<^verbatim>\<open>ir_t\<close> that \<^verbatim>\<open>process_file\<close> returns. It is a list of finite values, except
  when the maximum of \<^verbatim>\<open>ir_inv\<close> is zero: numpy then divides by zero without raising (it
  only warns). No entry of \<^verbatim>\<open>ir_inv\<close> is above the maximum, so each entry is zero or
  negative: \<^verbatim>\<open>100 * 0 / 0\<close> is \<^verbatim>\<open>nan\<close> and \<^verbatim>\<open>100 - nan\<close> is \<^verbatim>\<open>nan\<close>; for \<^verbatim>\<open>v < 0\<close>,
  \<^verbatim>\<open>100 * v / 0\<close> is \<^verbatim>\<open>-inf\<close> and \<^verbatim>\<open>100 - (-inf)\<close> is \<^verbatim>\<open>inf\<close>. Every entry of the array is
  then one of these two values.
\<close>

datatype special = Nan | PosInf

datatype transmittance = Finite "real list" | NonFinite "special list"

text \<open>
  Lines 152-153:
  \<^verbatim>\<open>ir_inv = 100.0 - ir_t_raw; ir_t = 100 - 100 * ir_inv / np.max(ir_inv)\<close>.
\<close>

definition normalize_t :: "real list \<Rightarrow> error + transmittance" where
  "normalize_t ir_t_raw =
     (let ir_inv = map (\<lambda>t. 100 - t) ir_t_raw in
      case np_max ir_inv of
        Inl e \<Rightarrow> Inl e
      | Inr m \<Rightarrow>
          if m = 0 then Inr (NonFinite (map (\<lambda>v. if v = 0 then Nan else PosInf) ir_inv))
          else Inr (Finite (map (\<lambda>v. 100 - 100 * v / m) ir_inv)))"

definition process_file :: "reader \<Rightarrow> string \<Rightarrow> bool \<Rightarrow> error + (real list \<times> transmittance)" where
  "process_file read_csv file_name normalize_flag =
     (case read_csv file_name of
        Inl e \<Rightarrow> Inl e
      | Inr data \<Rightarrow>
          (let ir_w = map fst data; ir_t_raw = map snd data in
           if normalize_flag then
             (case normalize_t ir_t_raw of
                Inl e \<Rightarrow> Inl e
              | Inr ir_t \<Rightarrow> Inr (ir_w, ir_t))
           else Inr (ir_w, Finite ir_t_raw)))"

subsection \<open>\<^verbatim>\<open>desc\<close>\<close>

text \<open>Python's \<^verbatim>\<open>sep.join(res)\<close>.\<close>

fun join :: "string \<Rightarrow> string list \<Rightarrow> string" where
  "join sep [] = []"
| "join sep [x] = x"
| "join sep (x # y # ys) = x @ sep @ join sep (y # ys)"

text \<open>
  The \<^verbatim>\<open>if\<close>/\<^verbatim>\<open>elif\<close> chain of \<^verbatim>\<open>desc\<close> (lines 165-172), in the source's order and with
  the source's comparisons.
\<close>

definition intensity :: "real \<Rightarrow> error + string list" where
  "intensity trel =
     (if 0 \<le> trel \<and> trel \<le> 33 then Inr [''s'']
      else if 33 < trel \<and> trel < 66 then Inr [''m'']
      else if 66 < trel \<and> trel \<le> 100 then Inr [''w'']
      else Inl ValueError)"

definition desc :: "real \<Rightarrow> real \<Rightarrow> real \<Rightarrow> string \<Rightarrow> error + string" where
  "desc trel w br_w sep =
     (case intensity trel of
        Inl e \<Rightarrow> Inl e
      | Inr res \<Rightarrow>
          (let res' = (if w > br_w then res @ [''br''] else res) in
           Inr (''('' @ join sep res' @ '')'')))"

subsection \<open>The detector: \<^verbatim>\<open>scipy.signal.find_peaks\<close>\<close>

text \<open>
  \<^verbatim>\<open>ms_report\<close> detects peaks with the SciPy routine
  \<^verbatim>\<open>find_peaks(x, prominence=..., width=..., distance=...)\<close>. The routine is a dependency,
  not code of the repository; what follows is its algorithm for this call
  (\<^verbatim>\<open>height\<close>, \<^verbatim>\<open>threshold\<close>, \<^verbatim>\<open>plateau_size\<close> and \<^verbatim>\<open>wlen\<close> unset,
  \<^verbatim>\<open>rel_height = 0.5\<close>), function by function, after SciPy's
  \<^verbatim>\<open>_peak_finding.py\<close> and \<^verbatim>\<open>_peak_finding_utils.pyx\<close>. Sample indices are \<^typ>\<open>nat\<close>;
  loop counters that run below zero are \<^typ>\<open>int\<close>, as \<^verbatim>\<open>np.intp\<close> is signed.
\<close>

text \<open>
  \<^verbatim>\<open>_local_maxima_1d\<close>: the inner loop looks ahead over a plateau,
  \<^verbatim>\<open>while i_ahead < i_max and x[i_ahead] == x[i]: i_ahead += 1\<close>.
\<close>

function ahead :: "real list \<Rightarrow> nat \<Rightarrow> nat \<Rightarrow> nat \<Rightarrow> nat" where
  "ahead x i i_max i_ahead =
     (if i_ahead < i_max \<and> x ! i_ahead = x ! i then ahead x i i_max (i_ahead + 1)
      else i_ahead)"
  by pat_completeness auto
termination
  by (relation "measure (\<lambda>(x, i, i_max, i_ahead). i_max - i_ahead)") auto

declare ahead.simps [simp del]

lemma ahead_ge: "i_ahead \<le> ahead x i i_max i_ahead"
proof (induction x i i_max i_ahead rule: ahead.induct)
  case (1 x i i_max i_ahead)
  then show ?case
    by (subst ahead.simps) (auto simp add: Suc_leD)
qed

text \<open>
  The outer loop, \<^verbatim>\<open>while i < i_max\<close>, from the sample \<open>i\<close> on. It gives the midpoints of
  the maxima (the plateau edges are not used when \<^verbatim>\<open>plateau_size\<close> is unset). A maximum
  is a sample, or plateau, strictly above the sample before it and the sample after it;
  the first and the last sample are never maxima.
\<close>

function local_maxima_from :: "real list \<Rightarrow> nat \<Rightarrow> nat \<Rightarrow> nat list" where
  "local_maxima_from x i_max i =
     (if i < i_max then
        (if x ! (i - 1) < x ! i then
           (let i_ahead = ahead x i i_max (i + 1) in
            if x ! i_ahead < x ! i then
              ((i + (i_ahead - 1)) div 2) # local_maxima_from x i_max (i_ahead + 1)
            else local_maxima_from x i_max (i + 1))
         else local_maxima_from x i_max (i + 1))
      else [])"
  by pat_completeness auto
termination
proof (relation "measure (\<lambda>(x, i_max, i). i_max - i)", goal_cases)
  case 1
  show ?case by simp
next
  case (2 x i_max i i_ahead)
  then show ?case using ahead_ge [of "i + 1" x i i_max] by simp
next
  case 3
  then show ?case by simp
next
  case 4
  then show ?case by simp
qed

declare local_maxima_from.simps [simp del]

definition local_maxima_1d :: "real list \<Rightarrow> nat list" where
  "local_maxima_1d x = local_maxima_from x (length x - 1) 1"

text \<open>Indexing with a boolean mask, \<^verbatim>\<open>array[keep]\<close>.\<close>

definition select :: "bool list \<Rightarrow> 'a list \<Rightarrow> 'a list" where
  "select keep xs = map snd (filter fst (zip keep xs))"

text \<open>
  \<^verbatim>\<open>_select_by_peak_distance\<close>. From the peak \<open>j\<close>, the two inner loops clear the flags
  of the peaks before and after it that are closer than \<^verbatim>\<open>distance_\<close> samples (here \<open>distance_int\<close>, the ceiling of \<^verbatim>\<open>distance\<close>).
\<close>

function flag_earlier :: "nat list \<Rightarrow> int \<Rightarrow> nat \<Rightarrow> int \<Rightarrow> bool list \<Rightarrow> bool list" where
  "flag_earlier peaks distance_int j k keep =
     (if 0 \<le> k \<and> int (peaks ! j) - int (peaks ! nat k) < distance_int then
        flag_earlier peaks distance_int j (k - 1) (keep[nat k := False])
      else keep)"
  by pat_completeness auto
termination
  by (relation "measure (\<lambda>(peaks, distance_int, j, k, keep). nat (k + 1))") auto

declare flag_earlier.simps [simp del]

function flag_later :: "nat list \<Rightarrow> int \<Rightarrow> nat \<Rightarrow> nat \<Rightarrow> bool list \<Rightarrow> bool list" where
  "flag_later peaks distance_int j k keep =
     (if k < length peaks \<and> int (peaks ! k) - int (peaks ! j) < distance_int then
        flag_later peaks distance_int j (k + 1) (keep[k := False])
      else keep)"
  by pat_completeness auto
termination
  by (relation "measure (\<lambda>(peaks, distance_int, j, k, keep). length peaks - k)") auto

declare flag_later.simps [simp del]

text \<open>
  \<^verbatim>\<open>np.argsort(priority)\<close>: the positions ordered by ascending priority. Here equal
  priorities keep their order of position.
\<close>

definition argsort :: "real list \<Rightarrow> nat list" where
  "argsort priority = sort_key (\<lambda>i. priority ! i) [0..<length priority]"

text \<open>
  The peaks are visited from the highest priority down; a peak whose flag is already
  cleared is skipped, any other clears the flags of its close neighbours.
\<close>

definition visit_peak :: "nat list \<Rightarrow> int \<Rightarrow> bool list \<Rightarrow> nat \<Rightarrow> bool list" where
  "visit_peak peaks distance_int keep j =
     (if \<not> keep ! j then keep
      else flag_later peaks distance_int j (j + 1)
             (flag_earlier peaks distance_int j (int j - 1) keep))"

definition select_by_peak_distance :: "nat list \<Rightarrow> real list \<Rightarrow> real \<Rightarrow> bool list" where
  "select_by_peak_distance peaks priority distance =
     (let distance_int = \<lceil>distance\<rceil>;
          keep = replicate (length peaks) True;
          priority_to_position = argsort priority
      in foldl (visit_peak peaks distance_int) keep (rev priority_to_position))"

text \<open>
  \<^verbatim>\<open>_peak_prominences\<close> with \<^verbatim>\<open>wlen\<close> unset. The two scans walk from the peak to the left
  and to the right while the signal stays at or below the peak, and remember the lowest
  sample they meet and where it is.
\<close>

function left_scan :: "real list \<Rightarrow> nat \<Rightarrow> int \<Rightarrow> real \<Rightarrow> nat \<Rightarrow> real \<times> nat" where
  "left_scan x peak i left_min left_base =
     (if 0 \<le> i \<and> x ! nat i \<le> x ! peak then
        (if x ! nat i < left_min then left_scan x peak (i - 1) (x ! nat i) (nat i)
         else left_scan x peak (i - 1) left_min left_base)
      else (left_min, left_base))"
  by pat_completeness auto
termination
  by (relation "measure (\<lambda>(x, peak, i, left_min, left_base). nat (i + 1))") auto

declare left_scan.simps [simp del]

function right_scan :: "real list \<Rightarrow> nat \<Rightarrow> nat \<Rightarrow> real \<Rightarrow> nat \<Rightarrow> real \<times> nat" where
  "right_scan x peak i right_min right_base =
     (if i < length x \<and> x ! i \<le> x ! peak then
        (if x ! i < right_min then right_scan x peak (i + 1) (x ! i) i
         else right_scan x peak (i + 1) right_min right_base)
      else (right_min, right_base))"
  by pat_completeness auto
termination
  by (relation "measure (\<lambda>(x, peak, i, right_min, right_base). length x - i)") auto

declare right_scan.simps [simp del]

text \<open>The prominence, left base and right base of one peak.\<close>

definition peak_prominence :: "real list \<Rightarrow> nat \<Rightarrow> error + (real \<times> nat \<times> nat)" where
  "peak_prominence x peak =
     (if \<not> peak < length x then Inl ValueError
      else
        (let (left_min, left_base) = left_scan x peak (int peak) (x ! peak) peak;
             (right_min, right_base) = right_scan x peak peak (x ! peak) peak
         in Inr (x ! peak - max left_min right_min, left_base, right_base)))"

text \<open>A loop body that can raise, run over a list: the first exception ends the loop.\<close>

fun map_result :: "('a \<Rightarrow> error + 'b) \<Rightarrow> 'a list \<Rightarrow> error + 'b list" where
  "map_result f [] = Inr []"
| "map_result f (a # as) =
     (case f a of
        Inl e \<Rightarrow> Inl e
      | Inr b \<Rightarrow> (case map_result f as of Inl e \<Rightarrow> Inl e | Inr bs \<Rightarrow> Inr (b # bs)))"

definition peak_prominences :: "real list \<Rightarrow> nat list \<Rightarrow> error + (real \<times> nat \<times> nat) list" where
  "peak_prominences x peaks = map_result (peak_prominence x) peaks"

text \<open>
  \<^verbatim>\<open>_peak_widths\<close>. The two walks go from the peak down to the evaluation height, not
  beyond the bases; the intersection points are interpolated linearly.
\<close>

function walk_left :: "real list \<Rightarrow> real \<Rightarrow> nat \<Rightarrow> nat \<Rightarrow> nat" where
  "walk_left x height i_min i =
     (if i_min < i \<and> height < x ! i then walk_left x height i_min (i - 1) else i)"
  by pat_completeness auto
termination
  by (relation "measure (\<lambda>(x, height, i_min, i). i)") auto

declare walk_left.simps [simp del]

function walk_right :: "real list \<Rightarrow> real \<Rightarrow> nat \<Rightarrow> nat \<Rightarrow> nat" where
  "walk_right x height i_max i =
     (if i < i_max \<and> height < x ! i then walk_right x height i_max (i + 1) else i)"
  by pat_completeness auto
termination
  by (relation "measure (\<lambda>(x, height, i_max, i). i_max - i)") auto

declare walk_right.simps [simp del]

definition peak_width :: "real list \<Rightarrow> real \<Rightarrow> nat \<times> real \<times> nat \<times> nat \<Rightarrow> error + real" where
  "peak_width x rel_height = (\<lambda>(peak, prominence, i_min, i_max).
     if \<not> (i_min \<le> peak \<and> peak \<le> i_max \<and> i_max < length x) then Inl ValueError
     else
       (let height = x ! peak - prominence * rel_height;
            i = walk_left x height i_min peak;
            left_ip = (if x ! i < height
                       then real i + (height - x ! i) / (x ! (i + 1) - x ! i)
                       else real i);
            i = walk_right x height i_max peak;
            right_ip = (if x ! i < height
                        then real i - (height - x ! i) / (x ! (i - 1) - x ! i)
                        else real i)
        in Inr (right_ip - left_ip)))"

definition peak_widths :: "real list \<Rightarrow> nat list \<Rightarrow> real \<Rightarrow> (real \<times> nat \<times> nat) list \<Rightarrow> error + real list" where
  "peak_widths x peaks rel_height properties =
     (if rel_height < 0 then Inl ValueError
      else map_result (peak_width x rel_height) (zip peaks properties))"

text \<open>
  \<^verbatim>\<open>find_peaks\<close> itself. The only argument it checks is \<^verbatim>\<open>distance\<close>, which must be at
  least 1. The conditions are applied in the order distance, prominence, width; a scalar
  \<^verbatim>\<open>prominence\<close> or \<^verbatim>\<open>width\<close> is a lower bound, \<^verbatim>\<open>pmin <= property\<close>. The result is the
  pair of the peak indices and of \<^verbatim>\<open>properties["widths"]\<close>, the one property
  \<^verbatim>\<open>ms_report\<close> reads.
\<close>

definition find_peaks :: "real list \<Rightarrow> real \<Rightarrow> real \<Rightarrow> real \<Rightarrow> error + (nat list \<times> real list)" where
  "find_peaks x prominence width distance =
     (if distance < 1 then Inl ValueError
      else
        (let peaks = local_maxima_1d x;
             keep = select_by_peak_distance peaks (map (\<lambda>p. x ! p) peaks) distance;
             peaks = select keep peaks
         in case peak_prominences x peaks of
              Inl e \<Rightarrow> Inl e
            | Inr properties \<Rightarrow>
                (let keep = map (\<lambda>(prom, lb, rb). prominence \<le> prom) properties;
                     peaks = select keep peaks;
                     properties = select keep properties
                 in case peak_widths x peaks (1 / 2) properties of
                      Inl e \<Rightarrow> Inl e
                    | Inr widths \<Rightarrow>
                        (let keep = map (\<lambda>w. width \<le> w) widths
                         in Inr (select keep peaks, select keep widths)))))"

subsection \<open>\<^verbatim>\<open>ms_report\<close>\<close>

text \<open>
  The loop of \<^verbatim>\<open>ms_report\<close> (lines 192-194) calls \<^verbatim>\<open>desc(ir_t[p], widths[i], br_w)\<close>: three
  arguments, so \<^verbatim>\<open>desc\<close> runs with its default separator, a single space, and the
  parameter \<^verbatim>\<open>sep\<close> of \<^verbatim>\<open>ms_report\<close> is not read. The generator is consumed to its end
  by its one caller; the model gives the list of what it yields, or the exception that
  stopped it. The unused \<^verbatim>\<open>w_av\<close> and \<^verbatim>\<open>w_std\<close> are left out (on an empty array
  \<^verbatim>\<open>np.average\<close> and \<^verbatim>\<open>np.std\<close> warn and give \<^verbatim>\<open>nan\<close>; they do not raise).

  When the array is not finite, the signal \<^verbatim>\<open>100 - ir_t\<close> has only the entries \<^verbatim>\<open>nan\<close>
  (from \<^verbatim>\<open>nan\<close>) and \<^verbatim>\<open>-inf\<close> (from \<^verbatim>\<open>inf\<close>). \<^verbatim>\<open>find_peaks\<close> checks \<^verbatim>\<open>distance\<close> first,
  as for any signal. Then \<^verbatim>\<open>_local_maxima_1d\<close> finds no maximum, because its test
  \<^verbatim>\<open>x[i - 1] < x[i]\<close> is false whenever \<^verbatim>\<open>x[i]\<close> is \<^verbatim>\<open>nan\<close> or \<^verbatim>\<open>-inf\<close>; the later steps run
  over empty arrays, and the loop of \<^verbatim>\<open>ms_report\<close> yields nothing.
\<close>

definition ms_report ::
  "real list \<Rightarrow> transmittance \<Rightarrow> real \<Rightarrow> real \<Rightarrow> real \<Rightarrow> real \<Rightarrow> string \<Rightarrow> error + (nat \<times> string) list" where
  "ms_report ir_w ir_t prominence width distance br_w sep =
     (case ir_t of
        Finite t \<Rightarrow>
          (case find_peaks (map (\<lambda>v. 100 - v) t) prominence width distance of
             Inl e \<Rightarrow> Inl e
           | Inr (peaks, widths) \<Rightarrow>
               map_result
                 (\<lambda>(p, w). case desc (t ! p) w br_w '' '' of
                              Inl e \<Rightarrow> Inl e
                            | Inr de \<Rightarrow> Inr (p, de))
                 (zip peaks widths))
      | NonFinite s \<Rightarrow> (if distance < 1 then Inl ValueError else Inr []))"

subsection \<open>\<^verbatim>\<open>generate_report\<close>\<close>

text \<open>
  The format \<^verbatim>\<open>f"{v:.0f}"\<close> of a float: the sign, then the magnitude rounded to the
  nearest integer, a tie going to the even one, in decimal digits.
\<close>

definition digit_char :: "nat \<Rightarrow> char" where
  "digit_char d = ''0123456789'' ! d"

fun digits :: "nat \<Rightarrow> string" where
  "digits n = (if n < 10 then [digit_char n] else digits (n div 10) @ [digit_char (n mod 10)])"

declare digits.simps [simp del]

definition round_half_even :: "real \<Rightarrow> int" where
  "round_half_even v =
     (let f = \<lfloor>v\<rfloor>; d = v - of_int f in
      if d < 1 / 2 then f
      else if 1 / 2 < d then f + 1
      else if even f then f else f + 1)"

definition fmt0 :: "real \<Rightarrow> string" where
  "fmt0 v =
     (if v < 0 then ''-'' @ digits (nat (round_half_even (- v)))
      else digits (nat (round_half_even v)))"

text \<open>The slice \<^verbatim>\<open>d[1:-1]\<close>.\<close>

definition inner :: "string \<Rightarrow> string" where
  "inner d = butlast (tl d)"

text \<open>
  \<^verbatim>\<open>generate_report\<close> reads the file with \<^verbatim>\<open>process_file(fname, normalize=True)\<close>: the
  literal \<^verbatim>\<open>True\<close>, not its parameter \<^verbatim>\<open>normalize\<close>, which is not read anywhere in the
  body. The parameter is an \<^typ>\<open>int\<close> here because \<^verbatim>\<open>main\<close> passes \<^verbatim>\<open>~parsed.raw\<close>.
  Of the drawing, the model keeps the labels: for each peak the arguments
  \<^verbatim>\<open>(x[p], y[p] - 8, f"{x[p]:.0f} {d[1:-1]}")\<close> of \<^verbatim>\<open>ax.text\<close>. The result is the pair of the
  labels drawn and of the list \<^verbatim>\<open>report\<close> that the function returns. The height
  \<^verbatim>\<open>y[p] - 8\<close> of a label is a real number when the array is finite; \<^verbatim>\<open>nan - 8\<close> is \<^verbatim>\<open>nan\<close>
  and \<^verbatim>\<open>inf - 8\<close> is \<^verbatim>\<open>inf\<close>.
\<close>

type_synonym label = "real \<times> (special + real) \<times> string"

fun label_height :: "transmittance \<Rightarrow> nat \<Rightarrow> special + real" where
  "label_height (Finite t) p = Inr (t ! p - 8)"
| "label_height (NonFinite s) p = Inl (s ! p)"

definition generate_report ::
  "reader \<Rightarrow> string \<Rightarrow> int \<Rightarrow> real \<Rightarrow> real \<Rightarrow> real \<Rightarrow> real \<Rightarrow> error + (label list \<times> string list)" where
  "generate_report read_csv fname normalize_arg prominence width broad_width distance =
     (case process_file read_csv fname True of
        Inl e \<Rightarrow> Inl e
      | Inr (x, y) \<Rightarrow>
          (case ms_report x y prominence width distance broad_width '' '' of
             Inl e \<Rightarrow> Inl e
           | Inr peaks \<Rightarrow>
               Inr (map (\<lambda>(p, d). (x ! p, label_height y p, fmt0 (x ! p) @ '' '' @ inner d)) peaks,
                    map (\<lambda>(p, d). fmt0 (x ! p) @ '' '' @ d) peaks)))"

subsection \<open>\<^verbatim>\<open>main\<close>\<close>

text \<open>
  The parsed command line, as far as the loop of \<^verbatim>\<open>main\<close> reads it. Python's \<^verbatim>\<open>~\<close> on a
  \<^verbatim>\<open>bool\<close> is the integer complement: \<^verbatim>\<open>~False = -1\<close> and \<^verbatim>\<open>~True = -2\<close>.
\<close>

record args =
  broad_peak_min_width :: real
  peak_min_distance :: real
  peak_min_width :: real
  peak_min_prominence :: real
  raw :: bool

definition py_invert :: "bool \<Rightarrow> int" where
  "py_invert b = - (if b then 1 else 0) - 1"

text \<open>
  The loop over the files (lines 277-296), with the lines printed to \<^verbatim>\<open>outstream\<close> as
  its state; \<^verbatim>\<open>os.path.abspath\<close> is a parameter. An exception ends the program: the result
  is what was written until then, and the exception if there was one. The messages on
  \<^verbatim>\<open>stderr\<close> are left out.
\<close>

fun main_loop ::
  "reader \<Rightarrow> (string \<Rightarrow> string) \<Rightarrow> args \<Rightarrow> string list \<Rightarrow> string list \<Rightarrow> string list \<times> error option" where
  "main_loop read_csv abspath parsed [] outstream = (outstream, None)"
| "main_loop read_csv abspath parsed (f # fs) outstream =
     (let outstream = outstream @ [''>>> '' @ abspath f] in
      case process_file read_csv f True of
        Inl e \<Rightarrow> (outstream, Some e)
      | Inr (ir_w, ir_t) \<Rightarrow>
          (case generate_report read_csv f (py_invert (raw parsed))
                  (peak_min_prominence parsed) (peak_min_width parsed)
                  (broad_peak_min_width parsed) (peak_min_distance parsed) of
             Inl e \<Rightarrow> (outstream, Some e)
           | Inr (labels, report) \<Rightarrow>
               main_loop read_csv abspath parsed fs
                 (outstream @ [''IR (ATR): '' @ join '', '' report @ ''.''])))"

text \<open>
  \<^verbatim>\<open>main\<close> after the command line is parsed and the file patterns are expanded to
  \<^verbatim>\<open>all_files\<close>: with no file it exits with status 1 before the loop.
\<close>

definition main :: "reader \<Rightarrow> (string \<Rightarrow> string) \<Rightarrow> args \<Rightarrow> string list \<Rightarrow> string list \<times> error option" where
  "main read_csv abspath parsed all_files =
     (if all_files = [] then ([], Some SystemExit)
      else main_loop read_csv abspath parsed all_files [])"

section \<open>The classifier\<close>

lemma desc_strong:
  "0 \<le> t \<Longrightarrow> t \<le> 33 \<Longrightarrow>
   desc t w b s = Inr (if w > b then ''(s'' @ s @ ''br)'' else ''(s)'')"
  by (simp add: desc_def intensity_def)

lemma desc_medium:
  "33 < t \<Longrightarrow> t < 66 \<Longrightarrow>
   desc t w b s = Inr (if w > b then ''(m'' @ s @ ''br)'' else ''(m)'')"
  by (simp add: desc_def intensity_def)

lemma desc_weak:
  "66 < t \<Longrightarrow> t \<le> 100 \<Longrightarrow>
   desc t w b s = Inr (if w > b then ''(w'' @ s @ ''br)'' else ''(w)'')"
  by (simp add: desc_def intensity_def)

lemma desc_boundaries:
  "desc 0 0 100 '' '' = Inr ''(s)''"
  "desc 33 0 100 '' '' = Inr ''(s)''"
  "desc 33.0001 0 100 '' '' = Inr ''(m)''"
  "desc 66.0001 0 100 '' '' = Inr ''(w)''"
  "desc 100 0 100 '' '' = Inr ''(w)''"
  by (simp_all add: desc_def intensity_def)

text \<open>
  C2. The intensity tag is \<open>s\<close> on \<open>[0, 33]\<close>, \<open>m\<close> on \<open>(33, 66)\<close> and \<open>w\<close> on
  \<open>(66, 100]\<close> (the three lemmas above), but at exactly \<open>t = 66\<close> no branch of the chain
  applies: the second tests \<open>trel < 66\<close>, the third \<open>66 < trel\<close>. The classifier raises
  \<open>ValueError\<close> there, for every width, threshold and separator, where the claim has \<open>m\<close>.
\<close>

theorem desc_at_66_raises: "desc 66 w br_w sep = Inl ValueError"
  by (simp add: desc_def intensity_def)

text \<open>
  C3. The classifier fails exactly when \<open>t\<close> is negative, greater than 100, or equal to
  66; it returns a string for every other \<open>t\<close>. The value 66 lies inside \<open>[0, 100]\<close>, so
  failure is not confined to out-of-range input. (No value is clamped: an out-of-range
  \<open>t\<close> always raises.)
\<close>

theorem desc_fails_iff:
  "(\<exists>e. desc t w br_w sep = Inl e) = (t < 0 \<or> 100 < t \<or> t = 66)"
  by (auto simp add: desc_def intensity_def Let_def split: if_splits)

section \<open>The normalizer\<close>

lemma np_max_eq:
  assumes "xs \<noteq> []"
  shows "np_max xs = Inr (Max (set xs))"
proof (cases xs)
  case Nil
  with assms show ?thesis by simp
next
  case (Cons a list)
  show ?thesis using Max.set_eq_fold [of a list] Cons by simp
qed


lemma normalize_t_eq:
  assumes "t \<noteq> []" and "Max ((\<lambda>v. 100 - v) ` set t) \<noteq> 0"
  shows "normalize_t t
         = Inr (Finite (map (\<lambda>v. 100 - 100 * (100 - v) / Max ((\<lambda>v. 100 - v) ` set t)) t))"
  using assms by (simp add: normalize_t_def np_max_eq Let_def comp_def)

text \<open>
  C7. When the file has at least one row and the maximum \<open>M\<close> of \<open>100 - t\<close> over its rows
  is not zero, \<^verbatim>\<open>process_file\<close> with normalization on returns the wavenumbers as read
  and, elementwise, \<open>100 - 100 * (100 - t\<^sub>i) / M\<close>; every sample whose inverted value is
  the maximum is mapped to exactly 0, and there is such a sample.
\<close>

theorem process_file_normalized:
  assumes "read_csv f = Inr data" and "data \<noteq> []"
    and "Max ((\<lambda>r. 100 - snd r) ` set data) \<noteq> 0"
  shows "\<exists>ir_t. process_file read_csv f True = Inr (map fst data, Finite ir_t)
           \<and> length ir_t = length data
           \<and> (\<forall>i<length data. ir_t ! i =
                 100 - 100 * (100 - snd (data ! i)) / Max ((\<lambda>r. 100 - snd r) ` set data))
           \<and> (\<forall>i<length data. 100 - snd (data ! i) = Max ((\<lambda>r. 100 - snd r) ` set data)
                 \<longrightarrow> ir_t ! i = 0)
           \<and> (\<exists>i<length data. ir_t ! i = 0)"
proof -
  let ?M = "Max ((\<lambda>r. 100 - snd r) ` set data)"
  have img: "(\<lambda>v. 100 - v) ` set (map snd data) = (\<lambda>r. 100 - snd r) ` set data"
    by (simp add: image_image)
  have nt: "normalize_t (map snd data)
            = Inr (Finite (map (\<lambda>v. 100 - 100 * (100 - v) / ?M) (map snd data)))"
    using normalize_t_eq [of "map snd data"] assms(2,3) img by simp
  have "?M \<in> (\<lambda>r. 100 - snd r) ` set data"
    using assms(2) by (intro Max_in) simp_all
  then obtain r where r: "r \<in> set data" "100 - snd r = ?M" by auto
  then obtain i where i: "i < length data" "data ! i = r" by (auto simp: in_set_conv_nth)
  define g where "g = (\<lambda>v. 100 - 100 * (100 - v) / ?M)"
  have g0: "g v = 0" if "100 - v = ?M" for v
  proof -
    have "g v = 100 - 100 * ?M / ?M" by (simp only: g_def that)
    also have "\<dots> = 0" using assms(3) by simp
    finally show ?thesis .
  qed
  let ?n = "map g (map snd data)"
  have p: "process_file read_csv f True = Inr (map fst data, Finite ?n)"
    using assms(1) nt by (simp add: process_file_def Let_def g_def)
  have z: "?n ! i = 0"
    using i r g0 [of "snd r"] by simp
  have a: "\<forall>j<length data. ?n ! j = 100 - 100 * (100 - snd (data ! j)) / ?M"
    by (simp add: g_def)
  have b: "\<forall>j<length data. 100 - snd (data ! j) = ?M \<longrightarrow> ?n ! j = 0"
    using g0 by simp
  have c: "\<exists>j<length data. ?n ! j = 0"
    using i(1) z by blast
  from p a b c show ?thesis
    by (intro exI [of _ ?n] conjI) simp_all
qed

theorem process_file_normalized_witness:
  "(\<lambda>_. Inr [(4000, 90), (3000, 50), (2000, 90)]) ''a.csv'' = (Inr [(4000, 90), (3000, 50), (2000, 90)] :: error + frame)
   \<and> process_file (\<lambda>_. Inr [(4000, 90), (3000, 50), (2000, 90)]) ''a.csv'' True
        = Inr ([4000, 3000, 2000], Finite [80, 0, 80])"
proof -
  let ?d = "[(4000, 90), (3000, 50), (2000, 90)] :: frame"
  have M: "Max ((\<lambda>r. 100 - snd r) ` set ?d) = 50" by simp
  from process_file_normalized [of "\<lambda>_. Inr ?d" "''a.csv''" ?d]
  obtain ir_t where p: "process_file (\<lambda>_. Inr ?d) ''a.csv'' True = Inr (map fst ?d, Finite ir_t)"
    and l: "length ir_t = length ?d"
    and v: "\<forall>i<length ?d. ir_t ! i = 100 - 100 * (100 - snd (?d ! i)) / Max ((\<lambda>r. 100 - snd r) ` set ?d)"
    unfolding M by auto
  have "ir_t ! 0 = 80" "ir_t ! 1 = 0" "ir_t ! 2 = 80"
    using v unfolding M by (simp_all add: nth_Cons')
  with l have "ir_t = [80, 0, 80]"
    by (auto simp add: list_eq_iff_nth_eq nth_Cons' less_Suc_eq eval_nat_numeral)
  with p show ?thesis by simp
qed


lemma normalize_t_idem:
  assumes "normalize_t t = Inr (Finite n)" and "0 < Max ((\<lambda>v. 100 - v) ` set t)"
  shows "normalize_t n = Inr (Finite n)"
proof -
  let ?A = "(\<lambda>v. 100 - v) ` set t"
  let ?M = "Max ?A"
  have ne: "t \<noteq> []"
    using assms(1) by (auto simp add: normalize_t_def)
  have M0: "?M \<noteq> 0" using assms(2) by simp
  have n: "n = map (\<lambda>v. 100 - 100 * (100 - v) / ?M) t"
    using normalize_t_eq [OF ne M0] assms(1) by simp
  have nne: "n \<noteq> []" using n ne by simp
  have "mono (\<lambda>x. 100 * x / ?M)"
    using assms(2) by (intro monoI) (simp add: divide_le_cancel)
  then have "100 * ?M / ?M = Max ((\<lambda>x. 100 * x / ?M) ` ?A)"
    using ne by (intro mono_Max_commute) simp_all
  moreover have "(\<lambda>x. 100 * x / ?M) ` ?A = (\<lambda>v. 100 - v) ` set n"
    unfolding n by (simp add: image_image)
  ultimately have M': "Max ((\<lambda>v. 100 - v) ` set n) = 100"
    using M0 by simp
  have "normalize_t n = Inr (Finite (map (\<lambda>v. 100 - 100 * (100 - v) / 100) n))"
    using normalize_t_eq [OF nne] M' by simp
  moreover have "(\<lambda>v::real. 100 - 100 * (100 - v) / 100) = (\<lambda>v. v)"
    by (rule ext) (simp add: field_simps)
  ultimately show ?thesis by simp
qed

text \<open>
  C10, as amended. When the maximum of \<open>100 - t\<close> over the rows of the file is positive
  (some raw transmittance is below 100), normalizing the normalized spectrum again gives
  the same spectrum, exactly.
\<close>

theorem process_file_idempotent:
  assumes "read_csv f = Inr data"
    and "process_file read_csv f True = Inr (ir_w, Finite ir_t)"
    and "0 < Max ((\<lambda>r. 100 - snd r) ` set data)"
  shows "process_file (\<lambda>_. Inr (zip ir_w ir_t)) f' True = Inr (ir_w, Finite ir_t)"
proof -
  have img: "(\<lambda>v. 100 - v) ` set (map snd data) = (\<lambda>r. 100 - snd r) ` set data"
    by (simp add: image_image)
  from assms(1,2) have w: "ir_w = map fst data"
    and nt: "normalize_t (map snd data) = Inr (Finite ir_t)"
    by (auto simp add: process_file_def Let_def split: sum.splits)
  have len: "length ir_t = length ir_w"
    using nt w by (auto simp add: normalize_t_def Let_def split: sum.splits if_splits)
  have "normalize_t ir_t = Inr (Finite ir_t)"
    using normalize_t_idem [OF nt] assms(3) img by simp
  then show ?thesis
    using len by (simp add: process_file_def Let_def)
qed

theorem process_file_idempotent_witness:
  "process_file (\<lambda>_. Inr [(4000, 90), (3000, 50), (2000, 90)]) ''a.csv'' True
      = Inr ([4000, 3000, 2000], Finite [80, 0, 80])
   \<and> process_file (\<lambda>_. Inr [(4000, 80), (3000, 0), (2000, 80)]) ''b.csv'' True
      = Inr ([4000, 3000, 2000], Finite [80, 0, 80])"
proof -
  let ?d = "[(4000, 90), (3000, 50), (2000, 90)] :: frame"
  have M: "0 < Max ((\<lambda>r. 100 - snd r) ` set ?d)" by simp
  have p: "process_file (\<lambda>_. Inr ?d) ''a.csv'' True
           = Inr ([4000, 3000, 2000], Finite [80, 0, 80])"
    by (simp add: process_file_def normalize_t_def)
  from process_file_idempotent [of "\<lambda>_. Inr ?d" "''a.csv''" ?d, OF _ p M, of "''b.csv''"] p
  show ?thesis by simp
qed

text \<open>
  C10, as stated, fails on this file, in which the maximum of \<open>100 - t\<close> is negative: the
  transmittances \<open>110, 120\<close> are normalized to \<open>0, -100\<close>, and normalizing those gives
  \<open>50, 0\<close>.
\<close>

theorem process_file_not_idempotent:
  "process_file (\<lambda>_. Inr [(4000, 110), (3000, 120)]) ''a.csv'' True
      = Inr ([4000, 3000], Finite [0, -100])
   \<and> process_file (\<lambda>_. Inr [(4000, 0), (3000, -100)]) ''b.csv'' True
      = Inr ([4000, 3000], Finite [50, 0])"
  by (simp add: process_file_def normalize_t_def)

text \<open>
  When the maximum of \<open>100 - t\<close> is zero the normalized array holds no finite value, so
  it is not a spectrum that could be read and normalized again.
\<close>

lemma flat_spectrum_not_finite:
  "process_file (\<lambda>_. Inr [(4000, 100), (3000, 100), (2000, 110)]) ''a.csv'' True
     = Inr ([4000, 3000, 2000], NonFinite [Nan, Nan, PosInf])"
  by (simp add: process_file_def normalize_t_def)

section \<open>The detector\<close>

subsection \<open>select\<close>

lemma select_Nil [simp]: "select [] xs = []" "select keep [] = []"
  by (simp_all add: select_def)

lemma select_Cons [simp]:
  "select (k # keep) (a # xs) = (if k then a # select keep xs else select keep xs)"
  by (simp add: select_def)

lemma set_select: "set (select keep xs) \<subseteq> set xs"
proof (induction keep arbitrary: xs)
  case Nil
  show ?case by simp
next
  case (Cons k keep)
  then show ?case by (cases xs) auto
qed

lemma sorted_wrt_select: "sorted_wrt P xs \<Longrightarrow> sorted_wrt P (select keep xs)"
proof (induction keep arbitrary: xs)
  case Nil
  show ?case by simp
next
  case (Cons k keep)
  show ?case
  proof (cases xs)
    case Nil
    then show ?thesis by simp
  next
    case (Cons a as)
    with Cons.prems Cons.IH [of as] set_select [of keep as] show ?thesis by auto
  qed
qed

lemma list_all2_select:
  "list_all2 R xs ys \<Longrightarrow> list_all2 R (select keep xs) (select keep ys)"
proof (induction keep arbitrary: xs ys)
  case Nil
  show ?case by simp
next
  case (Cons k keep)
  then show ?case by (cases xs; cases ys) auto
qed

subsection \<open>map_result\<close>

lemma map_result_Inr:
  "map_result f xs = Inr ys \<Longrightarrow> list_all2 (\<lambda>a b. f a = Inr b) xs ys"
proof (induction xs arbitrary: ys)
  case Nil
  then show ?case by simp
next
  case (Cons a as)
  then show ?case by (auto split: sum.splits)
qed

lemma map_result_total:
  "(\<And>a. a \<in> set xs \<Longrightarrow> \<exists>b. f a = Inr b) \<Longrightarrow> \<exists>ys. map_result f xs = Inr ys"
proof (induction xs)
  case Nil
  show ?case by simp
next
  case (Cons a as)
  then obtain b where "f a = Inr b" by force
  moreover from Cons obtain bs where "map_result f as = Inr bs" by force
  ultimately show ?case by simp
qed

subsection \<open>local maxima\<close>

lemma ahead_le: "i_ahead \<le> i_max \<Longrightarrow> ahead x i i_max i_ahead \<le> i_max"
proof (induction x i i_max i_ahead rule: ahead.induct)
  case (1 x i i_max i_ahead)
  then show ?case by (subst ahead.simps) auto
qed

lemma local_maxima_from_bounds:
  "p \<in> set (local_maxima_from x i_max i) \<Longrightarrow> i \<le> p \<and> p < i_max"
proof (induction x i_max i rule: local_maxima_from.induct)
  case (1 x i_max i)
  let ?a = "ahead x i i_max (i + 1)"
  have a1: "i + 1 \<le> ?a" by (rule ahead_ge)
  show ?case
  proof (cases "i < i_max")
    case False
    with "1.prems" show ?thesis by (subst (asm) local_maxima_from.simps) simp
  next
    case lt: True
    then have a2: "?a \<le> i_max" by (intro ahead_le) simp
    show ?thesis
    proof (cases "x ! (i - 1) < x ! i")
      case False
      with lt "1.prems" have "p \<in> set (local_maxima_from x i_max (i + 1))"
        by (subst (asm) local_maxima_from.simps) simp
      with "1.IH"(3) lt False show ?thesis by fastforce
    next
      case up: True
      show ?thesis
      proof (cases "x ! ?a < x ! i")
        case False
        with lt up "1.prems" have "p \<in> set (local_maxima_from x i_max (i + 1))"
          by (subst (asm) local_maxima_from.simps) (simp add: Let_def)
        with "1.IH"(2) [OF lt up refl] False show ?thesis by fastforce
      next
        case True
        with lt up "1.prems"
        have "p = (i + (?a - 1)) div 2 \<or> p \<in> set (local_maxima_from x i_max (?a + 1))"
          by (subst (asm) local_maxima_from.simps) (simp add: Let_def)
        then show ?thesis
        proof
          assume "p = (i + (?a - 1)) div 2"
          with a1 a2 show ?thesis by auto
        next
          assume "p \<in> set (local_maxima_from x i_max (?a + 1))"
          with "1.IH"(1) [OF lt up refl True] a1 show ?thesis by fastforce
        qed
      qed
    qed
  qed
qed

lemma local_maxima_from_sorted: "sorted_wrt (<) (local_maxima_from x i_max i)"
proof (induction x i_max i rule: local_maxima_from.induct)
  case (1 x i_max i)
  let ?a = "ahead x i i_max (i + 1)"
  have a1: "i + 1 \<le> ?a" by (rule ahead_ge)
  show ?case
  proof (cases "i < i_max")
    case False
    then show ?thesis by (subst local_maxima_from.simps) simp
  next
    case lt: True
    show ?thesis
    proof (cases "x ! (i - 1) < x ! i")
      case False
      with lt "1.IH"(3) show ?thesis by (subst local_maxima_from.simps) simp
    next
      case up: True
      show ?thesis
      proof (cases "x ! ?a < x ! i")
        case False
        with lt up "1.IH"(2) [OF lt up refl] show ?thesis
          by (subst local_maxima_from.simps) (simp add: Let_def)
      next
        case True
        have "(i + (?a - 1)) div 2 < q" if "q \<in> set (local_maxima_from x i_max (?a + 1))" for q
          using local_maxima_from_bounds [OF that] a1 by auto
        with lt up True "1.IH"(1) [OF lt up refl True] show ?thesis
          by (subst local_maxima_from.simps) (simp add: Let_def)
      qed
    qed
  qed
qed

lemma local_maxima_1d_sorted: "sorted_wrt (<) (local_maxima_1d x)"
  by (simp add: local_maxima_1d_def local_maxima_from_sorted)

lemma local_maxima_1d_bounds: "p \<in> set (local_maxima_1d x) \<Longrightarrow> 1 \<le> p \<and> p + 1 < length x"
  using local_maxima_from_bounds [of p x "length x - 1" 1] by (auto simp add: local_maxima_1d_def)


subsection \<open>prominences and widths\<close>

lemma left_scan_base:
  "left_scan x peak i lm lb = (m, b) \<Longrightarrow> lb \<le> peak \<Longrightarrow> i \<le> int peak \<Longrightarrow> b \<le> peak"
proof (induction x peak i lm lb rule: left_scan.induct)
  case (1 x peak i left_min left_base)
  show ?case
  proof (cases "0 \<le> i \<and> x ! nat i \<le> x ! peak")
    case False
    with "1.prems" show ?thesis by (subst (asm) left_scan.simps) simp
  next
    case c: True
    show ?thesis
    proof (cases "x ! nat i < left_min")
      case True
      with c "1.prems"(1) have "left_scan x peak (i - 1) (x ! nat i) (nat i) = (m, b)"
        by (subst (asm) left_scan.simps) simp
      with "1.IH"(1) [OF c True] c "1.prems"(3) show ?thesis by simp
    next
      case False
      with c "1.prems"(1) have "left_scan x peak (i - 1) left_min left_base = (m, b)"
        by (subst (asm) left_scan.simps) simp
      with "1.IH"(2) [OF c False] "1.prems"(2,3) show ?thesis by simp
    qed
  qed
qed

lemma right_scan_base:
  "right_scan x peak i rm rb = (m, b) \<Longrightarrow> peak \<le> rb \<Longrightarrow> rb < length x \<Longrightarrow> peak \<le> i
   \<Longrightarrow> peak \<le> b \<and> b < length x"
proof (induction x peak i rm rb rule: right_scan.induct)
  case (1 x peak i right_min right_base)
  show ?case
  proof (cases "i < length x \<and> x ! i \<le> x ! peak")
    case False
    with "1.prems" show ?thesis by (subst (asm) right_scan.simps) simp
  next
    case c: True
    show ?thesis
    proof (cases "x ! i < right_min")
      case True
      with c "1.prems"(1) have "right_scan x peak (i + 1) (x ! i) i = (m, b)"
        by (subst (asm) right_scan.simps) simp
      with "1.IH"(1) [OF c True] c "1.prems"(4) show ?thesis by simp
    next
      case False
      with c "1.prems"(1) have "right_scan x peak (i + 1) right_min right_base = (m, b)"
        by (subst (asm) right_scan.simps) simp
      with "1.IH"(2) [OF c False] "1.prems"(2,3,4) show ?thesis by simp
    qed
  qed
qed

lemma peak_prominence_ok:
  assumes "p < length x"
  shows "\<exists>prom lb rb. peak_prominence x p = Inr (prom, lb, rb) \<and> lb \<le> p \<and> p \<le> rb \<and> rb < length x"
proof -
  obtain lm lb where l: "left_scan x p (int p) (x ! p) p = (lm, lb)" by force
  obtain rm rb where r: "right_scan x p p (x ! p) p = (rm, rb)" by force
  have "lb \<le> p" using left_scan_base [OF l] by simp
  moreover have "p \<le> rb \<and> rb < length x" using right_scan_base [OF r] assms by simp
  moreover have "peak_prominence x p = Inr (x ! p - max lm rm, lb, rb)"
    using assms l r by (simp add: peak_prominence_def)
  ultimately show ?thesis by blast
qed

lemma peak_prominence_bounds:
  "peak_prominence x p = Inr (prom, lb, rb) \<Longrightarrow> lb \<le> p \<and> p \<le> rb \<and> rb < length x"
proof -
  assume a: "peak_prominence x p = Inr (prom, lb, rb)"
  then have "p < length x" by (auto simp add: peak_prominence_def split: if_splits)
  from peak_prominence_ok [OF this] a show ?thesis by auto
qed

lemma peak_width_ok:
  "lb \<le> p \<Longrightarrow> p \<le> rb \<Longrightarrow> rb < length x \<Longrightarrow> \<exists>w. peak_width x rh (p, prom, lb, rb) = Inr w"
  by (simp add: peak_width_def Let_def)

lemma peak_prominences_ok:
  assumes "\<And>p. p \<in> set peaks \<Longrightarrow> p < length x"
  shows "\<exists>props. peak_prominences x peaks = Inr props"
  unfolding peak_prominences_def
  using assms peak_prominence_ok [of _ x] by (intro map_result_total) blast

lemma peak_widths_ok:
  assumes "list_all2 (\<lambda>p pr. peak_prominence x p = Inr pr) peaks props"
  shows "\<exists>ws. peak_widths x peaks (1 / 2) props = Inr ws"
proof -
  have "\<exists>w. peak_width x (1 / 2) a = Inr w" if "a \<in> set (zip peaks props)" for a
  proof -
    obtain p prom lb rb where a: "a = (p, prom, lb, rb)" by (cases a) auto
    from that assms have "peak_prominence x p = Inr (prom, lb, rb)"
      unfolding a by (auto simp add: list_all2_iff)
    from peak_prominence_bounds [OF this] show ?thesis
      unfolding a by (intro peak_width_ok) simp_all
  qed
  then have "\<exists>ws. map_result (peak_width x (1 / 2)) (zip peaks props) = Inr ws"
    by (intro map_result_total) blast
  then show ?thesis by (simp add: peak_widths_def)
qed

lemma peak_widths_length:
  "peak_widths x peaks rh props = Inr ws \<Longrightarrow> length ws = min (length peaks) (length props)"
  by (auto simp add: peak_widths_def split: if_splits dest!: map_result_Inr list_all2_lengthD)

lemma length_select: "length xs = length ys \<Longrightarrow> length (select keep xs) = length (select keep ys)"
proof (induction keep arbitrary: xs ys)
  case Nil
  show ?case by simp
next
  case (Cons k keep)
  then show ?case by (cases xs; cases ys) auto
qed

subsection \<open>find_peaks\<close>


lemma find_peaks_Inr:
  assumes "\<not> distance < 1"
  shows "\<exists>peaks widths. find_peaks x prominence width distance = Inr (peaks, widths)
           \<and> sorted_wrt (<) peaks \<and> length widths = length peaks
           \<and> set peaks \<subseteq> set (local_maxima_1d x)"
proof -
  define peaks0 where "peaks0 = local_maxima_1d x"
  define keep1 where "keep1 = select_by_peak_distance peaks0 (map (\<lambda>p. x ! p) peaks0) distance"
  define peaks1 where "peaks1 = select keep1 peaks0"
  have s1: "sorted_wrt (<) peaks1" and b1: "set peaks1 \<subseteq> set peaks0"
    unfolding peaks1_def peaks0_def
    by (simp_all add: sorted_wrt_select local_maxima_1d_sorted set_select)
  have "\<And>p. p \<in> set peaks1 \<Longrightarrow> p < length x"
    using b1 local_maxima_1d_bounds [of _ x] unfolding peaks0_def by fastforce
  from peak_prominences_ok [OF this] obtain props1
    where pp: "peak_prominences x peaks1 = Inr props1" by blast
  then have l1: "list_all2 (\<lambda>p pr. peak_prominence x p = Inr pr) peaks1 props1"
    unfolding peak_prominences_def by (rule map_result_Inr)
  define keep2 where "keep2 = map (\<lambda>(prom, lb, rb). prominence \<le> prom) props1"
  define peaks2 where "peaks2 = select keep2 peaks1"
  define props2 where "props2 = select keep2 props1"
  have l2: "list_all2 (\<lambda>p pr. peak_prominence x p = Inr pr) peaks2 props2"
    unfolding peaks2_def props2_def using l1 by (rule list_all2_select)
  from peak_widths_ok [OF l2] obtain ws where pw: "peak_widths x peaks2 (1 / 2) props2 = Inr ws"
    by blast
  have lw: "length ws = length peaks2"
    using peak_widths_length [OF pw] list_all2_lengthD [OF l2] by simp
  define keep3 where "keep3 = map (\<lambda>w. width \<le> w) ws"
  have fp: "find_peaks x prominence width distance = Inr (select keep3 peaks2, select keep3 ws)"
    using assms pp pw
    by (simp add: find_peaks_def Let_def peaks0_def [symmetric] keep1_def [symmetric]
        peaks1_def [symmetric] keep2_def [symmetric] peaks2_def [symmetric]
        props2_def [symmetric] keep3_def [symmetric])
  have "sorted_wrt (<) (select keep3 peaks2)"
    unfolding peaks2_def using s1 by (intro sorted_wrt_select)
  moreover have "length (select keep3 ws) = length (select keep3 peaks2)"
    using lw by (rule length_select)
  moreover have "set (select keep3 peaks2) \<subseteq> set (local_maxima_1d x)"
    using set_select [of keep3 peaks2] set_select [of keep2 peaks1] b1
    unfolding peaks2_def peaks0_def by blast
  ultimately show ?thesis using fp by blast
qed

lemma find_peaks_sorted:
  assumes "find_peaks x prominence width distance = Inr (peaks, widths)"
  shows "sorted_wrt (<) peaks" and "length widths = length peaks"
    and "p \<in> set peaks \<Longrightarrow> 1 \<le> p \<and> p + 1 < length x"
proof -
  from assms have "\<not> distance < 1" by (auto simp add: find_peaks_def split: if_splits)
  from find_peaks_Inr [OF this, of x prominence width] assms
  have a: "sorted_wrt (<) peaks \<and> length widths = length peaks \<and> set peaks \<subseteq> set (local_maxima_1d x)"
    by auto
  then show "sorted_wrt (<) peaks" and "length widths = length peaks" by simp_all
  show "1 \<le> p \<and> p + 1 < length x" if "p \<in> set peaks"
    using a that local_maxima_1d_bounds [of p x] by blast
qed


section \<open>The report\<close>

lemma desc_shape:
  assumes "desc t w b '' '' = Inr d"
  shows "\<exists>tags\<in>{''s'', ''m'', ''w'', ''s br'', ''m br'', ''w br''}. d = ''('' @ tags @ '')''"
  using assms by (auto simp add: desc_def intensity_def Let_def split: if_splits)



lemma ms_report_NonFinite:
  "ms_report ir_w (NonFinite s) prominence width distance br_w sep
   = (if distance < 1 then Inl ValueError else Inr [])"
  by (simp add: ms_report_def)

lemma ms_report_Inr:
  assumes "ms_report ir_w (Finite ir_t) prominence width distance br_w sep = Inr r"
  shows "\<exists>peaks widths.
           find_peaks (map (\<lambda>t. 100 - t) ir_t) prominence width distance = Inr (peaks, widths)
           \<and> length r = length peaks
           \<and> (\<forall>i<length peaks. \<exists>d. r ! i = (peaks ! i, d)
                 \<and> desc (ir_t ! (peaks ! i)) (widths ! i) br_w '' '' = Inr d)"
proof -
  from assms obtain peaks widths
    where fp: "find_peaks (map (\<lambda>t. 100 - t) ir_t) prominence width distance = Inr (peaks, widths)"
      and mr: "map_result
                 (\<lambda>(p, w). case desc (ir_t ! p) w br_w '' '' of
                              Inl e \<Rightarrow> Inl e | Inr de \<Rightarrow> Inr (p, de))
                 (zip peaks widths) = Inr r"
    by (auto simp add: ms_report_def split: sum.splits prod.splits)
  have len: "length widths = length peaks" using find_peaks_sorted(2) [OF fp] .
  note l2 = map_result_Inr [OF mr]
  have lr: "length r = length peaks"
    using list_all2_lengthD [OF l2] len by simp
  have "\<exists>d. r ! i = (peaks ! i, d) \<and> desc (ir_t ! (peaks ! i)) (widths ! i) br_w '' '' = Inr d"
    if "i < length peaks" for i
  proof -
    from that len have "i < length (zip peaks widths)" by simp
    from list_all2_nthD [OF l2 this] that len
    show ?thesis by (auto split: sum.splits)
  qed
  with fp lr show ?thesis by blast
qed

lemma generate_report_Inr:
  assumes "generate_report rd f nz prominence width bw distance = Inr (labels, report)"
  shows "\<exists>x y r. process_file rd f True = Inr (x, y)
           \<and> ms_report x y prominence width distance bw '' '' = Inr r
           \<and> labels = map (\<lambda>(p, d). (x ! p, label_height y p, fmt0 (x ! p) @ '' '' @ inner d)) r
           \<and> report = map (\<lambda>(p, d). fmt0 (x ! p) @ '' '' @ d) r"
  using assms by (auto simp add: generate_report_def split: sum.splits prod.splits)

lemma generate_report_NonFinite:
  assumes "process_file rd f True = Inr (x, NonFinite s)"
  shows "generate_report rd f nz prominence width bw distance
         = (if distance < 1 then Inl ValueError else Inr ([], []))"
  using assms by (simp add: generate_report_def ms_report_NonFinite)

lemma generate_report_peaks:
  assumes pf: "process_file rd f True = Inr (x, Finite y)"
    and gr: "generate_report rd f nz prominence width bw distance = Inr (labels, report)"
  shows "\<exists>peaks widths.
           find_peaks (map (\<lambda>t. 100 - t) y) prominence width distance = Inr (peaks, widths)
           \<and> length report = length peaks \<and> length labels = length peaks
           \<and> (\<forall>i<length peaks. \<exists>d.
                 desc (y ! (peaks ! i)) (widths ! i) bw '' '' = Inr d
                 \<and> report ! i = fmt0 (x ! (peaks ! i)) @ '' '' @ d
                 \<and> labels ! i = (x ! (peaks ! i), Inr (y ! (peaks ! i) - 8),
                                  fmt0 (x ! (peaks ! i)) @ '' '' @ inner d))"
proof -
  from generate_report_Inr [OF gr] pf obtain r
    where ms: "ms_report x (Finite y) prominence width distance bw '' '' = Inr r"
      and lb: "labels = map (\<lambda>(p, d). (x ! p, label_height (Finite y) p,
                                         fmt0 (x ! p) @ '' '' @ inner d)) r"
      and rp: "report = map (\<lambda>(p, d). fmt0 (x ! p) @ '' '' @ d) r"
    by auto
  from ms_report_Inr [OF ms] obtain peaks widths
    where fp: "find_peaks (map (\<lambda>t. 100 - t) y) prominence width distance = Inr (peaks, widths)"
      and lr: "length r = length peaks"
      and el: "\<forall>i<length peaks. \<exists>d. r ! i = (peaks ! i, d)
                 \<and> desc (y ! (peaks ! i)) (widths ! i) bw '' '' = Inr d"
    by blast
  have "\<exists>d. desc (y ! (peaks ! i)) (widths ! i) bw '' '' = Inr d
          \<and> report ! i = fmt0 (x ! (peaks ! i)) @ '' '' @ d
          \<and> labels ! i = (x ! (peaks ! i), Inr (y ! (peaks ! i) - 8),
                           fmt0 (x ! (peaks ! i)) @ '' '' @ inner d)"
    if "i < length peaks" for i
  proof -
    from el that obtain d where d: "r ! i = (peaks ! i, d)"
      "desc (y ! (peaks ! i)) (widths ! i) bw '' '' = Inr d" by blast
    with that lr show ?thesis by (simp add: rp lb)
  qed
  with fp lr show ?thesis by (simp add: rp lb)
qed

subsection \<open>Formatting a wavenumber\<close>

lemma round_half_even_nearest: "\<bar>real_of_int (round_half_even v) - v\<bar> \<le> 1 / 2"
proof -
  have "real_of_int \<lfloor>v\<rfloor> \<le> v" "v < real_of_int \<lfloor>v\<rfloor> + 1" by linarith+
  then show ?thesis
    by (auto simp add: round_half_even_def Let_def)
qed

lemma fmt0_rounds:
  "\<exists>n. \<bar>real_of_int n - \<bar>v\<bar>\<bar> \<le> 1 / 2
       \<and> fmt0 v = (if v < 0 then ''-'' else []) @ digits (nat n)"
proof (cases "v < 0")
  case True
  with round_half_even_nearest [of "- v"] show ?thesis
    by (intro exI [of _ "round_half_even (- v)"]) (simp add: fmt0_def)
next
  case False
  with round_half_even_nearest [of v] show ?thesis
    by (intro exI [of _ "round_half_even v"]) (simp add: fmt0_def)
qed

lemma fmt0_examples:
  "fmt0 1715 = ''1715''" "fmt0 1715.3 = ''1715''" "fmt0 1715.5 = ''1716''"
  "fmt0 1716.5 = ''1716''" "fmt0 0.4 = ''0''"
  by code_simp+


section \<open>Order and format of the report\<close>

text \<open>
  C9. The indices the detector returns are strictly increasing, for every signal and
  all thresholds; and when \<^verbatim>\<open>generate_report\<close> returns, its \<open>i\<close>-th report line and its
  \<open>i\<close>-th label are those of the \<open>i\<close>-th detected peak: its wavenumber, and the
  classification of its transmittance and width. The report is in detection order.
\<close>

theorem report_in_detection_order:
  "(find_peaks s prominence width distance = Inr (pks, ws) \<longrightarrow> sorted_wrt (<) pks)
   \<and> (process_file rd f True = Inr (x, Finite y)
        \<and> generate_report rd f nz prominence width bw distance = Inr (labels, report)
      \<longrightarrow> (\<exists>peaks widths.
             find_peaks (map (\<lambda>t. 100 - t) y) prominence width distance = Inr (peaks, widths)
             \<and> sorted_wrt (<) peaks
             \<and> length report = length peaks
             \<and> (\<forall>i<length peaks. \<exists>d.
                   desc (y ! (peaks ! i)) (widths ! i) bw '' '' = Inr d
                   \<and> report ! i = fmt0 (x ! (peaks ! i)) @ '' '' @ d)
             \<and> map fst labels = map (\<lambda>p. x ! p) peaks))"
proof (intro conjI impI)
  assume "find_peaks s prominence width distance = Inr (pks, ws)"
  then show "sorted_wrt (<) pks" by (rule find_peaks_sorted(1))
next
  assume a: "process_file rd f True = Inr (x, Finite y)
    \<and> generate_report rd f nz prominence width bw distance = Inr (labels, report)"
  then have pf: "process_file rd f True = Inr (x, Finite y)"
    and gr: "generate_report rd f nz prominence width bw distance = Inr (labels, report)"
    by simp_all
  from generate_report_peaks [OF pf gr] obtain peaks widths
    where fp: "find_peaks (map (\<lambda>t. 100 - t) y) prominence width distance = Inr (peaks, widths)"
      and lr: "length report = length peaks" and ll: "length labels = length peaks"
      and el: "\<forall>i<length peaks. \<exists>d.
                 desc (y ! (peaks ! i)) (widths ! i) bw '' '' = Inr d
                 \<and> report ! i = fmt0 (x ! (peaks ! i)) @ '' '' @ d
                 \<and> labels ! i = (x ! (peaks ! i), Inr (y ! (peaks ! i) - 8),
                                  fmt0 (x ! (peaks ! i)) @ '' '' @ inner d)"
    by blast
  have so: "sorted_wrt (<) peaks" using fp by (rule find_peaks_sorted(1))
  have ml: "map fst labels = map (\<lambda>p. x ! p) peaks"
  proof (rule nth_equalityI)
    show "length (map fst labels) = length (map (\<lambda>p. x ! p) peaks)" using ll by simp
  next
    fix i assume "i < length (map fst labels)"
    then have i: "i < length peaks" using ll by simp
    with el obtain d where "labels ! i = (x ! (peaks ! i), Inr (y ! (peaks ! i) - 8),
                                  fmt0 (x ! (peaks ! i)) @ '' '' @ inner d)" by blast
    with i ll show "map fst labels ! i = map (\<lambda>p. x ! p) peaks ! i" by simp
  qed
  from el have el': "\<forall>i<length peaks. \<exists>d.
                 desc (y ! (peaks ! i)) (widths ! i) bw '' '' = Inr d
                 \<and> report ! i = fmt0 (x ! (peaks ! i)) @ '' '' @ d"
    by blast
  from fp so lr el' ml
  show "\<exists>peaks widths.
             find_peaks (map (\<lambda>t. 100 - t) y) prominence width distance = Inr (peaks, widths)
             \<and> sorted_wrt (<) peaks
             \<and> length report = length peaks
             \<and> (\<forall>i<length peaks. \<exists>d.
                   desc (y ! (peaks ! i)) (widths ! i) bw '' '' = Inr d
                   \<and> report ! i = fmt0 (x ! (peaks ! i)) @ '' '' @ d)
             \<and> map fst labels = map (\<lambda>p. x ! p) peaks"
    by blast
qed

lemma two_dips:
  "find_peaks (map (\<lambda>t. 100 - t) [100, 20, 100, 80, 100]) 2 1 1 = Inr ([1, 3], [1, 1])"
  "process_file (\<lambda>_. Inr [(4000, 100), (3000, 20), (2000, 100), (1000, 80), (500, 100)])
     ''a.csv'' True = Inr ([4000, 3000, 2000, 1000, 500], Finite [100, 0, 100, 75, 100])"
  "generate_report (\<lambda>_. Inr [(4000, 100), (3000, 20), (2000, 100), (1000, 80), (500, 100)])
     ''a.csv'' (- 1) 2 1 100 1
   = Inr ([(3000, Inr (- 8), ''3000 s''), (1000, Inr 67, ''1000 w'')], [''3000 (s)'', ''1000 (w)''])"
  by code_simp+

theorem report_in_detection_order_witness:
  "find_peaks (map (\<lambda>t. 100 - t) [100, 20, 100, 80, 100]) 2 1 1 = Inr ([1, 3], [1, 1])
   \<and> sorted_wrt (<) [1, 3 :: nat]
   \<and> generate_report (\<lambda>_. Inr [(4000, 100), (3000, 20), (2000, 100), (1000, 80), (500, 100)])
       ''a.csv'' (- 1) 2 1 100 1
     = Inr ([(3000, Inr (- 8), ''3000 s''), (1000, Inr 67, ''1000 w'')], [''3000 (s)'', ''1000 (w)''])
   \<and> (\<exists>peaks widths.
         find_peaks (map (\<lambda>t. 100 - t) [100, 0, 100, 75, 100]) 2 1 1 = Inr (peaks, widths)
         \<and> sorted_wrt (<) peaks
         \<and> map fst ([(3000, Inr (- 8), ''3000 s''), (1000, Inr 67, ''1000 w'')] :: label list)
             = map (\<lambda>p. [4000, 3000, 2000, 1000, 500 :: real] ! p) peaks)"
proof -
  let ?rd = "\<lambda>_ :: string. Inr [(4000, 100), (3000, 20), (2000, 100), (1000, 80), (500, 100)] :: error + frame"
  note t = report_in_detection_order
    [of "map (\<lambda>t. 100 - t) [100, 20, 100, 80, 100]" 2 1 1 "[1, 3]" "[1, 1]"
        ?rd "''a.csv''" "[4000, 3000, 2000, 1000, 500]" "[100, 0, 100, 75, 100]" "- 1" 100
        "[(3000, Inr (- 8), ''3000 s''), (1000, Inr 67, ''1000 w'')]" "[''3000 (s)'', ''1000 (w)'']"]
  from t two_dips show ?thesis by blast
qed




section \<open>The summary line\<close>

lemma generate_report_lines:
  assumes "generate_report rd f nz prominence width bw distance = Inr (labels, report)"
    and "l \<in> set report"
  shows "\<exists>v. \<exists>tags\<in>{''s'', ''m'', ''w'', ''s br'', ''m br'', ''w br''}.
           l = fmt0 v @ '' ('' @ tags @ '')''"
proof -
  from generate_report_Inr [OF assms(1)] obtain x y where pf: "process_file rd f True = Inr (x, y)"
    by blast
  show ?thesis
  proof (cases y)
    case (NonFinite s)
    with pf assms(1) have "report = []"
      using generate_report_NonFinite [of rd f x s nz prominence width bw distance]
      by (simp split: if_splits)
    with assms(2) show ?thesis by simp
  next
    case (Finite t)
    with pf have pf': "process_file rd f True = Inr (x, Finite t)" by simp
    from generate_report_peaks [OF pf' assms(1)] obtain peaks widths
      where lr: "length report = length peaks"
        and el: "\<forall>i<length peaks. \<exists>d.
                   desc (t ! (peaks ! i)) (widths ! i) bw '' '' = Inr d
                   \<and> report ! i = fmt0 (x ! (peaks ! i)) @ '' '' @ d
                   \<and> labels ! i = (x ! (peaks ! i), Inr (t ! (peaks ! i) - 8),
                                    fmt0 (x ! (peaks ! i)) @ '' '' @ inner d)"
      by blast
    from assms(2) obtain i where i: "i < length report" "report ! i = l"
      by (auto simp add: in_set_conv_nth)
    with lr el obtain d where d: "desc (t ! (peaks ! i)) (widths ! i) bw '' '' = Inr d"
      and r: "l = fmt0 (x ! (peaks ! i)) @ '' '' @ d"
      by force
    from desc_shape [OF d] obtain tags
      where tg: "tags \<in> {''s'', ''m'', ''w'', ''s br'', ''m br'', ''w br''}"
        and dt: "d = ''('' @ tags @ '')''" by blast
    have "l = fmt0 (x ! (peaks ! i)) @ '' ('' @ tags @ '')''" using r dt by simp
    then show ?thesis using tg
      by (intro exI [of _ "x ! (peaks ! i)"] bexI [of _ tags])
  qed
qed

text \<open>\<^verbatim>\<open>sep.join\<close> puts the separator before every element but the first.\<close>

lemma join_eq:
  "join sep xs = (case xs of [] \<Rightarrow> [] | l # ls \<Rightarrow> l @ concat (map (\<lambda>d. sep @ d) ls))"
proof (induction sep xs rule: join.induct)
  case (1 sep)
  show ?case by simp
next
  case (2 sep x)
  show ?case by simp
next
  case (3 sep x y ys)
  then show ?case by simp
qed

lemma main_loop_step:
  assumes "generate_report rd f (py_invert (raw parsed)) (peak_min_prominence parsed)
             (peak_min_width parsed) (broad_peak_min_width parsed) (peak_min_distance parsed)
           = Inr (labels, report)"
  shows "main_loop rd ap parsed (f # fs) out
         = main_loop rd ap parsed fs
             (out @ [''>>> '' @ ap f, ''IR (ATR): '' @ join '', '' report @ ''.''])"
proof -
  from generate_report_Inr [OF assms] obtain x y where pf: "process_file rd f True = Inr (x, y)"
    by blast
  show ?thesis
    using pf assms by (simp add: Let_def)
qed

lemma main_loop_all:
  assumes "list_all2
             (\<lambda>f report. \<exists>labels.
                generate_report rd f (py_invert (raw parsed)) (peak_min_prominence parsed)
                  (peak_min_width parsed) (broad_peak_min_width parsed)
                  (peak_min_distance parsed) = Inr (labels, report))
             fs reports"
  shows "main_loop rd ap parsed fs out
         = (out @ concat (map (\<lambda>(f, report).
                     [''>>> '' @ ap f, ''IR (ATR): '' @ join '', '' report @ ''.''])
                   (zip fs reports)), None)"
  using assms
proof (induction arbitrary: out rule: list_all2_induct)
  case Nil
  show ?case by simp
next
  case (Cons f fs report reports)
  from Cons.hyps(1) obtain labels
    where "generate_report rd f (py_invert (raw parsed)) (peak_min_prominence parsed)
             (peak_min_width parsed) (broad_peak_min_width parsed) (peak_min_distance parsed)
           = Inr (labels, report)"
    by blast
  from main_loop_step [OF this, of ap fs out] Cons.IH
  show ?case by simp
qed

lemma zero_maximum_report:
  assumes "rd f = Inr data" and "data \<noteq> []"
    and "Max ((\<lambda>r. 100 - snd r) ` set data) = 0" and "\<not> distance < 1"
  shows "generate_report rd f nz prominence width bw distance = Inr ([], [])"
proof -
  have img: "(\<lambda>v. 100 - v) ` set (map snd data) = (\<lambda>r. 100 - snd r) ` set data"
    by (simp add: image_image)
  have "np_max (map (\<lambda>t. 100 - t) (map snd data)) = Inr 0"
    using np_max_eq [of "map (\<lambda>t. 100 - t) (map snd data)"] assms(2,3) img by simp
  then have "\<exists>s. normalize_t (map snd data) = Inr (NonFinite s)"
    by (simp add: normalize_t_def Let_def)
  then obtain s where "process_file rd f True = Inr (map fst data, NonFinite s)"
    using assms(1) by (auto simp add: process_file_def Let_def)
  from generate_report_NonFinite [OF this] assms(4) show ?thesis by simp
qed

text \<open>
  C8. When the report of every file is produced, \<^verbatim>\<open>main\<close> writes, for each file in turn
  and nothing else, the header line and then the line made of \<open>IR (ATR): \<close>, the report
  lines with a comma and a space between them, and a period; each report line is a
  formatted wavenumber, a space, and tags in parentheses. A report with no line gives
  \<open>IR (ATR): .\<close>; this is the report of a file whose maximum of \<open>100 - t\<close> is zero, such as a
  flat spectrum at 100, whenever the minimum distance is at least 1.
\<close>

theorem summary_line_format:
  assumes "list_all2
             (\<lambda>f report. \<exists>labels.
                generate_report rd f (py_invert (raw parsed)) (peak_min_prominence parsed)
                  (peak_min_width parsed) (broad_peak_min_width parsed)
                  (peak_min_distance parsed) = Inr (labels, report))
             all_files reports"
  shows "main_loop rd ap parsed all_files out
           = (out @ concat (map (\<lambda>(f, report).
                       [''>>> '' @ ap f,
                        ''IR (ATR): ''
                          @ (case report of [] \<Rightarrow> [] | l # ls \<Rightarrow> l @ concat (map (\<lambda>d. '', '' @ d) ls))
                          @ ''.''])
                     (zip all_files reports)), None)
         \<and> (all_files \<noteq> [] \<longrightarrow>
              main rd ap parsed all_files
              = (concat (map (\<lambda>(f, report).
                       [''>>> '' @ ap f,
                        ''IR (ATR): ''
                          @ (case report of [] \<Rightarrow> [] | l # ls \<Rightarrow> l @ concat (map (\<lambda>d. '', '' @ d) ls))
                          @ ''.''])
                     (zip all_files reports)), None))
         \<and> (\<forall>report\<in>set reports. \<forall>l\<in>set report.
               \<exists>v. \<exists>tags\<in>{''s'', ''m'', ''w'', ''s br'', ''m br'', ''w br''}.
                 l = fmt0 v @ '' ('' @ tags @ '')'')
         \<and> (rd g = Inr data \<and> data \<noteq> [] \<and> Max ((\<lambda>r. 100 - snd r) ` set data) = 0
              \<and> \<not> distance < 1
            \<longrightarrow> generate_report rd g nz prominence width bw distance = Inr ([], []))"
proof -
  have all: "main_loop rd ap parsed all_files out'
           = (out' @ concat (map (\<lambda>(f, report).
                       [''>>> '' @ ap f,
                        ''IR (ATR): ''
                          @ (case report of [] \<Rightarrow> [] | l # ls \<Rightarrow> l @ concat (map (\<lambda>d. '', '' @ d) ls))
                          @ ''.''])
                     (zip all_files reports)), None)" for out'
    using main_loop_all [OF assms, of ap out'] by (simp add: join_eq)
  have shape: "\<exists>v. \<exists>tags\<in>{''s'', ''m'', ''w'', ''s br'', ''m br'', ''w br''}.
                 l = fmt0 v @ '' ('' @ tags @ '')''"
    if "report \<in> set reports" and "l \<in> set report" for report l
  proof -
    from that(1) obtain i where i: "i < length reports" "reports ! i = report"
      by (auto simp add: in_set_conv_nth)
    from list_all2_nthD2 [OF assms i(1)] i(2) obtain labels
      where "generate_report rd (all_files ! i) (py_invert (raw parsed))
               (peak_min_prominence parsed) (peak_min_width parsed)
               (broad_peak_min_width parsed) (peak_min_distance parsed) = Inr (labels, report)"
      by blast
    from generate_report_lines [OF this that(2)] show ?thesis .
  qed
  show ?thesis
  proof (intro conjI ballI impI)
    show "main_loop rd ap parsed all_files out
           = (out @ concat (map (\<lambda>(f, report).
                       [''>>> '' @ ap f,
                        ''IR (ATR): ''
                          @ (case report of [] \<Rightarrow> [] | l # ls \<Rightarrow> l @ concat (map (\<lambda>d. '', '' @ d) ls))
                          @ ''.''])
                     (zip all_files reports)), None)"
      by (rule all)
  next
    assume "all_files \<noteq> []"
    then show "main rd ap parsed all_files
              = (concat (map (\<lambda>(f, report).
                       [''>>> '' @ ap f,
                        ''IR (ATR): ''
                          @ (case report of [] \<Rightarrow> [] | l # ls \<Rightarrow> l @ concat (map (\<lambda>d. '', '' @ d) ls))
                          @ ''.''])
                     (zip all_files reports)), None)"
      using all [of "[]"] by (simp add: main_def)
  next
    fix report l assume "report \<in> set reports" and "l \<in> set report"
    then show "\<exists>v. \<exists>tags\<in>{''s'', ''m'', ''w'', ''s br'', ''m br'', ''w br''}.
                 l = fmt0 v @ '' ('' @ tags @ '')''"
      by (rule shape)
  next
    assume "rd g = Inr data \<and> data \<noteq> [] \<and> Max ((\<lambda>r. 100 - snd r) ` set data) = 0
              \<and> \<not> distance < 1"
    then show "generate_report rd g nz prominence width bw distance = Inr ([], [])"
      using zero_maximum_report [of rd g data distance nz prominence width bw] by simp
  qed
qed

text \<open>
  A run over two files: one with two dips, one flat at 100. The program writes the two
  peaks of the first in one line, and \<open>IR (ATR): .\<close> for the second.
\<close>

lemma two_files:
  "generate_report
     (\<lambda>f. if f = ''a.csv''
           then Inr [(4000, 100), (3000, 20), (2000, 100), (1000, 80), (500, 100)]
           else Inr [(4000, 100), (3000, 100), (2000, 100)])
     ''a.csv''
     (py_invert (raw \<lparr>broad_peak_min_width = 100, peak_min_distance = 1, peak_min_width = 1,
                      peak_min_prominence = 2, raw = False\<rparr>))
     (peak_min_prominence \<lparr>broad_peak_min_width = 100, peak_min_distance = 1, peak_min_width = 1,
                      peak_min_prominence = 2, raw = False\<rparr>)
     (peak_min_width \<lparr>broad_peak_min_width = 100, peak_min_distance = 1, peak_min_width = 1,
                      peak_min_prominence = 2, raw = False\<rparr>)
     (broad_peak_min_width \<lparr>broad_peak_min_width = 100, peak_min_distance = 1, peak_min_width = 1,
                      peak_min_prominence = 2, raw = False\<rparr>)
     (peak_min_distance \<lparr>broad_peak_min_width = 100, peak_min_distance = 1, peak_min_width = 1,
                      peak_min_prominence = 2, raw = False\<rparr>)
   = Inr ([(3000, Inr (- 8), ''3000 s''), (1000, Inr 67, ''1000 w'')], [''3000 (s)'', ''1000 (w)''])"
  "generate_report
     (\<lambda>f. if f = ''a.csv''
           then Inr [(4000, 100), (3000, 20), (2000, 100), (1000, 80), (500, 100)]
           else Inr [(4000, 100), (3000, 100), (2000, 100)])
     ''flat.csv''
     (py_invert (raw \<lparr>broad_peak_min_width = 100, peak_min_distance = 1, peak_min_width = 1,
                      peak_min_prominence = 2, raw = False\<rparr>))
     (peak_min_prominence \<lparr>broad_peak_min_width = 100, peak_min_distance = 1, peak_min_width = 1,
                      peak_min_prominence = 2, raw = False\<rparr>)
     (peak_min_width \<lparr>broad_peak_min_width = 100, peak_min_distance = 1, peak_min_width = 1,
                      peak_min_prominence = 2, raw = False\<rparr>)
     (broad_peak_min_width \<lparr>broad_peak_min_width = 100, peak_min_distance = 1, peak_min_width = 1,
                      peak_min_prominence = 2, raw = False\<rparr>)
     (peak_min_distance \<lparr>broad_peak_min_width = 100, peak_min_distance = 1, peak_min_width = 1,
                      peak_min_prominence = 2, raw = False\<rparr>)
   = Inr ([], [])"
  by code_simp+

theorem summary_line_format_witness:
  "main
     (\<lambda>f. if f = ''a.csv''
           then Inr [(4000, 100), (3000, 20), (2000, 100), (1000, 80), (500, 100)]
           else Inr [(4000, 100), (3000, 100), (2000, 100)])
     (\<lambda>f. ''/d/'' @ f)
     \<lparr>broad_peak_min_width = 100, peak_min_distance = 1, peak_min_width = 1,
      peak_min_prominence = 2, raw = False\<rparr>
     [''a.csv'', ''flat.csv'']
   = ([''>>> /d/a.csv'', ''IR (ATR): 3000 (s), 1000 (w).'',
       ''>>> /d/flat.csv'', ''IR (ATR): .''], None)"
proof -
  let ?rd = "\<lambda>f. if f = ''a.csv''
           then Inr [(4000, 100), (3000, 20), (2000, 100), (1000, 80), (500, 100)]
           else Inr [(4000, 100), (3000, 100), (2000, 100)] :: error + frame"
  let ?parsed = "\<lparr>broad_peak_min_width = 100, peak_min_distance = 1, peak_min_width = 1,
      peak_min_prominence = 2, raw = False\<rparr>"
  have h: "list_all2
             (\<lambda>f report. \<exists>labels.
                generate_report ?rd f (py_invert (raw ?parsed)) (peak_min_prominence ?parsed)
                  (peak_min_width ?parsed) (broad_peak_min_width ?parsed)
                  (peak_min_distance ?parsed) = Inr (labels, report))
             [''a.csv'', ''flat.csv''] [[''3000 (s)'', ''1000 (w)''], []]"
    using two_files by (intro list_all2_Cons [THEN iffD2] conjI exI) (assumption | simp)+
  from summary_line_format [OF h, of "\<lambda>f. ''/d/'' @ f"]
  have "main ?rd (\<lambda>f. ''/d/'' @ f) ?parsed [''a.csv'', ''flat.csv'']
        = (concat (map (\<lambda>(f, report).
                       [''>>> '' @ (\<lambda>f. ''/d/'' @ f) f,
                        ''IR (ATR): ''
                          @ (case report of [] \<Rightarrow> [] | l # ls \<Rightarrow> l @ concat (map (\<lambda>d. '', '' @ d) ls))
                          @ ''.''])
                     (zip [''a.csv'', ''flat.csv''] [[''3000 (s)'', ''1000 (w)''], []])), None)"
    by blast
  then show ?thesis by simp
qed

section \<open>Options and thresholds\<close>

lemma generate_report_normalize_arg:
  "generate_report rd f nz prominence width bw distance
   = generate_report rd f nz' prominence width bw distance"
  by (simp add: generate_report_def)

lemma main_loop_raw:
  "main_loop rd ap (parsed\<lparr>raw := b\<rparr>) fs out = main_loop rd ap (parsed\<lparr>raw := b'\<rparr>) fs out"
proof (induction fs arbitrary: out)
  case Nil
  show ?case by simp
next
  case (Cons f fs)
  show ?case
    using Cons.IH
      generate_report_normalize_arg [of rd f "py_invert b" "peak_min_prominence parsed"
        "peak_min_width parsed" "broad_peak_min_width parsed" "peak_min_distance parsed"
        "py_invert b'"]
    by (simp add: Let_def split: sum.splits prod.splits)
qed

text \<open>
  C1. The flag \<^verbatim>\<open>--raw\<close> has no effect: \<^verbatim>\<open>main\<close> writes the same lines with it and
  without it, for all files and thresholds. On the file with transmittances
  \<open>90, 50, 90\<close>, \<^verbatim>\<open>process_file\<close> with normalization off does return the raw values, and the
  peak of the raw values is of medium intensity, \<open>(m)\<close>; but the program run with \<^verbatim>\<open>--raw\<close>
  reports \<open>2000 (s)\<close>, the classification of the normalized value 0.
\<close>

theorem raw_flag_has_no_effect:
  "main rd ap (parsed\<lparr>raw := True\<rparr>) all_files = main rd ap (parsed\<lparr>raw := False\<rparr>) all_files
   \<and> process_file (\<lambda>_. Inr [(3000, 90), (2000, 50), (1000, 90)]) ''a.csv'' False
       = Inr ([3000, 2000, 1000], Finite [90, 50, 90])
   \<and> ms_report [3000, 2000, 1000] (Finite [90, 50, 90]) 5 1 1 100 '' '' = Inr [(1, ''(m)'')]
   \<and> main (\<lambda>_. Inr [(3000, 90), (2000, 50), (1000, 90)]) (\<lambda>f. ''/d/'' @ f)
        \<lparr>broad_peak_min_width = 100, peak_min_distance = 1, peak_min_width = 1,
         peak_min_prominence = 5, raw = True\<rparr> [''a.csv'']
       = ([''>>> /d/a.csv'', ''IR (ATR): 2000 (s).''], None)"
proof (intro conjI)
  show "main rd ap (parsed\<lparr>raw := True\<rparr>) all_files = main rd ap (parsed\<lparr>raw := False\<rparr>) all_files"
    using main_loop_raw [where b = True and b' = False and out = "[]"] by (simp add: main_def)
  show "process_file (\<lambda>_. Inr [(3000, 90), (2000, 50), (1000, 90)]) ''a.csv'' False
       = Inr ([3000, 2000, 1000], Finite [90, 50, 90])"
    by (simp add: process_file_def)
  show "ms_report [3000, 2000, 1000] (Finite [90, 50, 90]) 5 1 1 100 '' '' = Inr [(1, ''(m)'')]"
    by code_simp
  show "main (\<lambda>_. Inr [(3000, 90), (2000, 50), (1000, 90)]) (\<lambda>f. ''/d/'' @ f)
        \<lparr>broad_peak_min_width = 100, peak_min_distance = 1, peak_min_width = 1,
         peak_min_prominence = 5, raw = True\<rparr> [''a.csv'']
       = ([''>>> /d/a.csv'', ''IR (ATR): 2000 (s).''], None)"
    by code_simp
qed

text \<open>
  C5. \<^verbatim>\<open>ms_report\<close> gives the same result for every separator it is called with, the
  result for a single space: \<^verbatim>\<open>desc\<close> itself joins a strong broad peak with \<open>-\<close> to
  \<open>(s-br)\<close>, but \<^verbatim>\<open>ms_report\<close> called with \<open>-\<close> yields \<open>(s br)\<close>.
\<close>

theorem ms_report_ignores_sep:
  "ms_report ir_w ir_t prominence width distance br_w sep
     = ms_report ir_w ir_t prominence width distance br_w '' ''
   \<and> desc 0 1 (1 / 2) ''-'' = Inr ''(s-br)''
   \<and> ms_report [3000, 2000, 1000] (Finite [100, 0, 100]) 2 (1 / 2) 1 (1 / 2) ''-''
       = Inr [(1, ''(s br)'')]"
proof (intro conjI)
  show "ms_report ir_w ir_t prominence width distance br_w sep
     = ms_report ir_w ir_t prominence width distance br_w '' ''"
    by (simp add: ms_report_def)
  show "desc 0 1 (1 / 2) ''-'' = Inr ''(s-br)''"
    by (simp add: desc_def intensity_def)
  show "ms_report [3000, 2000, 1000] (Finite [100, 0, 100]) 2 (1 / 2) 1 (1 / 2) ''-''
       = Inr [(1, ''(s br)'')]"
    by code_simp
qed





end
